theory Spec2Isabelle
  imports Complex_Main "HOL-Library.Sublist" "HOL-Library.AList"
begin

section \<open>Common data\<close>

text \<open>
  A \<open>datetime\<close> value (\<open>datetime.now()\<close>) has microsecond resolution; it is modelled as the
  number of microseconds since a fixed epoch. A \<open>timedelta\<close> is a number of microseconds too.
  Every operation takes the clock reading as an argument; the clock does not advance while
  one operation runs. Calls to the logger write to a log only and are left out.
\<close>

type_synonym datetime = int

definition timedelta_seconds :: "int \<Rightarrow> int" where
  "timedelta_seconds n = n * 1000000"

definition timedelta_minutes :: "int \<Rightarrow> int" where
  "timedelta_minutes n = n * 60 * 1000000"

text \<open>The exceptions of Python that the modelled code can raise and does not catch.\<close>

datatype error = KeyError | ValueError

section \<open>csrf\_manager.py: CSRFManager\<close>

text \<open>
  \<open>user_tokens\<close> and \<open>token_expiry\<close> are the two dictionaries of the class, keyed by the
  user id. \<open>token_length\<close> and \<open>token_lifetime\<close> are the settings of \<open>__init__\<close>.
\<close>

record CSRFManager =
  user_tokens :: "int \<rightharpoonup> string"
  token_expiry :: "int \<rightharpoonup> datetime"

definition token_length :: nat where
  "token_length = 8"

definition token_lifetime :: int where
  "token_lifetime = 3600"

definition csrf_init :: CSRFManager where
  "csrf_init = \<lparr>user_tokens = Map.empty, token_expiry = Map.empty\<rparr>"

text \<open>
  \<open>generate_token\<close>: \<open>fresh\<close> is the value that \<open>secrets.token_urlsafe(token_length)\<close>
  returns, an input of the model.
\<close>

definition generate_token :: "CSRFManager \<Rightarrow> int \<Rightarrow> datetime \<Rightarrow> string \<Rightarrow> string \<times> CSRFManager" where
  "generate_token m user_id now fresh =
     (fresh, m\<lparr>user_tokens := (user_tokens m)(user_id \<mapsto> fresh),
               token_expiry := (token_expiry m)(user_id \<mapsto> now + timedelta_seconds token_lifetime)\<rparr>)"

definition cleanup_user_token :: "CSRFManager \<Rightarrow> int \<Rightarrow> CSRFManager" where
  "cleanup_user_token m user_id =
     m\<lparr>user_tokens := (user_tokens m)(user_id := None),
       token_expiry := (token_expiry m)(user_id := None)\<rparr>"

text \<open>
  \<open>validate_token\<close>: \<open>self.token_expiry[user_id]\<close> raises \<open>KeyError\<close> when the user has a
  token and no expiry.
\<close>

definition validate_token :: "CSRFManager \<Rightarrow> int \<Rightarrow> string \<Rightarrow> datetime \<Rightarrow> (error + bool) \<times> CSRFManager" where
  "validate_token m user_id token now =
     (case user_tokens m user_id of
        None \<Rightarrow> (Inr False, m)
      | Some stored \<Rightarrow>
          (case token_expiry m user_id of
             None \<Rightarrow> (Inl KeyError, m)
           | Some expiry \<Rightarrow>
               if now > expiry then (Inr False, cleanup_user_token m user_id)
               else if stored \<noteq> token then (Inr False, m)
               else (Inr True, m)))"

definition get_user_token :: "CSRFManager \<Rightarrow> int \<Rightarrow> datetime \<Rightarrow> (error + string option) \<times> CSRFManager" where
  "get_user_token m user_id now =
     (case user_tokens m user_id of
        None \<Rightarrow> (Inr None, m)
      | Some stored \<Rightarrow>
          (case token_expiry m user_id of
             None \<Rightarrow> (Inl KeyError, m)
           | Some expiry \<Rightarrow>
               if now > expiry then (Inr None, cleanup_user_token m user_id)
               else (Inr (Some stored), m)))"

definition refresh_token :: "CSRFManager \<Rightarrow> int \<Rightarrow> datetime \<Rightarrow> string \<Rightarrow> string \<times> CSRFManager" where
  "refresh_token m user_id now fresh = generate_token m user_id now fresh"

text \<open>The fixed delimiter of the bound-action wire format.\<close>

definition csrf_delim :: string where
  "csrf_delim = ''|csrf:''"

text \<open>
  \<open>add_csrf_to_callback_data\<close>: \<open>not token\<close> holds for \<open>None\<close> and for the empty string.
\<close>

definition add_csrf_to_callback_data ::
  "CSRFManager \<Rightarrow> int \<Rightarrow> string \<Rightarrow> datetime \<Rightarrow> string \<Rightarrow> (error + string) \<times> CSRFManager" where
  "add_csrf_to_callback_data m user_id callback_data now fresh =
     (case get_user_token m user_id now of
        (Inl e, m') \<Rightarrow> (Inl e, m')
      | (Inr token, m') \<Rightarrow>
          (case token of
             None \<Rightarrow>
               (let (t, m'') = generate_token m' user_id now fresh
                in (Inr (callback_data @ csrf_delim @ t), m''))
           | Some stored \<Rightarrow>
               if stored = [] then
                 (let (t, m'') = generate_token m' user_id now fresh
                  in (Inr (callback_data @ csrf_delim @ t), m''))
               else (Inr (callback_data @ csrf_delim @ stored), m')))"

text \<open>
  Python's \<open>sep in s\<close> and \<open>s.rsplit(sep, 1)\<close> for a non-empty separator: \<open>rsplit\<close> cuts at
  the last occurrence of the separator and returns the one-element list \<open>[s]\<close> when there is
  none.
\<close>

fun str_contains :: "string \<Rightarrow> string \<Rightarrow> bool" where
  "str_contains sep [] = (sep = [])"
| "str_contains sep (c # cs) = (prefix sep (c # cs) \<or> str_contains sep cs)"

fun rfind_split :: "string \<Rightarrow> string \<Rightarrow> (string \<times> string) option" where
  "rfind_split sep [] = None"
| "rfind_split sep (c # cs) =
     (case rfind_split sep cs of
        Some (a, b) \<Rightarrow> Some (c # a, b)
      | None \<Rightarrow> if prefix sep (c # cs) then Some ([], drop (length sep) (c # cs)) else None)"

definition rsplit1 :: "string \<Rightarrow> string \<Rightarrow> string list" where
  "rsplit1 sep s = (case rfind_split sep s of None \<Rightarrow> [s] | Some (a, b) \<Rightarrow> [a, b])"

text \<open>
  \<open>extract_callback_data\<close>: the result \<open>Inr None\<close> is Python's \<open>None\<close> (invalid); unpacking
  a list that has not two elements raises \<open>ValueError\<close>.
\<close>

definition extract_callback_data ::
  "CSRFManager \<Rightarrow> int \<Rightarrow> string \<Rightarrow> datetime \<Rightarrow> (error + string option) \<times> CSRFManager" where
  "extract_callback_data m user_id callback_data now =
     (if \<not> str_contains csrf_delim callback_data then (Inr None, m)
      else
        (case rsplit1 csrf_delim callback_data of
           [data, token_part] \<Rightarrow>
             (case validate_token m user_id token_part now of
                (Inl e, m') \<Rightarrow> (Inl e, m')
              | (Inr ok, m') \<Rightarrow> if \<not> ok then (Inr None, m') else (Inr (Some data), m'))
         | _ \<Rightarrow> (Inl ValueError, m)))"

section \<open>rate\_limiter.py: RateLimiter\<close>

text \<open>
  \<open>time.time()\<close> returns a float; a timestamp is modelled as a real number of seconds,
  and the subtractions and comparisons of the source as exact ones. The three
  dictionaries are \<open>defaultdict(list)\<close>: reading a missing key stores and returns \<open>[]\<close>.
\<close>

record RateLimiter =
  pin_attempts :: "int \<rightharpoonup> real list"
  twofa_attempts :: "int \<rightharpoonup> real list"
  request_counts :: "int \<rightharpoonup> real list"
  max_pin_attempts :: int
  max_twofa_attempts :: int
  max_requests_per_minute :: int
  pin_lockout_duration :: int
  twofa_lockout_duration :: int
  request_window :: int

text \<open>The constructor; \<open>rate_limiter_default\<close> is the constructor at its default arguments.\<close>

definition rate_limiter_init :: "int \<Rightarrow> int \<Rightarrow> int \<Rightarrow> int \<Rightarrow> int \<Rightarrow> RateLimiter" where
  "rate_limiter_init max_pin max_twofa max_requests pin_lockout twofa_lockout =
     \<lparr>pin_attempts = Map.empty, twofa_attempts = Map.empty, request_counts = Map.empty,
      max_pin_attempts = max_pin, max_twofa_attempts = max_twofa,
      max_requests_per_minute = max_requests,
      pin_lockout_duration = pin_lockout, twofa_lockout_duration = twofa_lockout,
      request_window = 60\<rparr>"

definition rate_limiter_default :: RateLimiter where
  "rate_limiter_default = rate_limiter_init 5 3 10 300 180"

text \<open>
  The result dictionary: \<open>Denied n\<close> is \<open>{"allowed": False, "remaining_time": n}\<close> and
  \<open>Allowed n\<close> is \<open>{"allowed": True, "remaining_attempts": n}\<close> (\<open>"remaining_requests"\<close>
  for the general requests); the message is a fixed text around \<open>n\<close>.
\<close>

datatype rate_result = Denied int | Allowed int

text \<open>Python's \<open>int(x)\<close> truncates towards zero; \<open>min\<close> of an empty list raises.\<close>

definition py_int :: "real \<Rightarrow> int" where
  "py_int x = (if 0 \<le> x then \<lfloor>x\<rfloor> else \<lceil>x\<rceil>)"

definition py_min :: "real list \<Rightarrow> error + real" where
  "py_min xs = (case xs of [] \<Rightarrow> Inl ValueError | x # ys \<Rightarrow> Inr (fold min ys x))"

definition default_list :: "real list option \<Rightarrow> real list" where
  "default_list v = (case v of None \<Rightarrow> [] | Some xs \<Rightarrow> xs)"

definition check_pin_rate_limit ::
  "RateLimiter \<Rightarrow> int \<Rightarrow> real \<Rightarrow> (error + rate_result) \<times> RateLimiter" where
  "check_pin_rate_limit rl user_id current_time =
     (let user_attempts =
            filter (\<lambda>attempt_time. current_time - attempt_time < of_int (pin_lockout_duration rl))
              (default_list (pin_attempts rl user_id))
      in if int (length user_attempts) \<ge> max_pin_attempts rl then
           (case py_min user_attempts of
              Inl e \<Rightarrow> (Inl e, rl\<lparr>pin_attempts := (pin_attempts rl)(user_id \<mapsto> user_attempts)\<rparr>)
            | Inr oldest_attempt \<Rightarrow>
                (Inr (Denied (py_int (of_int (pin_lockout_duration rl)
                                       - (current_time - oldest_attempt)))),
                 rl\<lparr>pin_attempts := (pin_attempts rl)(user_id \<mapsto> user_attempts)\<rparr>))
         else
           (Inr (Allowed (max_pin_attempts rl - int (length (user_attempts @ [current_time])))),
            rl\<lparr>pin_attempts := (pin_attempts rl)(user_id \<mapsto> user_attempts @ [current_time])\<rparr>))"

definition check_twofa_rate_limit ::
  "RateLimiter \<Rightarrow> int \<Rightarrow> real \<Rightarrow> (error + rate_result) \<times> RateLimiter" where
  "check_twofa_rate_limit rl user_id current_time =
     (let user_attempts =
            filter (\<lambda>attempt_time. current_time - attempt_time < of_int (twofa_lockout_duration rl))
              (default_list (twofa_attempts rl user_id))
      in if int (length user_attempts) \<ge> max_twofa_attempts rl then
           (case py_min user_attempts of
              Inl e \<Rightarrow> (Inl e, rl\<lparr>twofa_attempts := (twofa_attempts rl)(user_id \<mapsto> user_attempts)\<rparr>)
            | Inr oldest_attempt \<Rightarrow>
                (Inr (Denied (py_int (of_int (twofa_lockout_duration rl)
                                       - (current_time - oldest_attempt)))),
                 rl\<lparr>twofa_attempts := (twofa_attempts rl)(user_id \<mapsto> user_attempts)\<rparr>))
         else
           (Inr (Allowed (max_twofa_attempts rl - int (length (user_attempts @ [current_time])))),
            rl\<lparr>twofa_attempts := (twofa_attempts rl)(user_id \<mapsto> user_attempts @ [current_time])\<rparr>))"

definition check_request_rate_limit ::
  "RateLimiter \<Rightarrow> int \<Rightarrow> real \<Rightarrow> (error + rate_result) \<times> RateLimiter" where
  "check_request_rate_limit rl user_id current_time =
     (let user_requests =
            filter (\<lambda>request_time. current_time - request_time < of_int (request_window rl))
              (default_list (request_counts rl user_id))
      in if int (length user_requests) \<ge> max_requests_per_minute rl then
           (case py_min user_requests of
              Inl e \<Rightarrow> (Inl e, rl\<lparr>request_counts := (request_counts rl)(user_id \<mapsto> user_requests)\<rparr>)
            | Inr oldest_request \<Rightarrow>
                (Inr (Denied (py_int (of_int (request_window rl)
                                       - (current_time - oldest_request)))),
                 rl\<lparr>request_counts := (request_counts rl)(user_id \<mapsto> user_requests)\<rparr>))
         else
           (Inr (Allowed (max_requests_per_minute rl - int (length (user_requests @ [current_time])))),
            rl\<lparr>request_counts := (request_counts rl)(user_id \<mapsto> user_requests @ [current_time])\<rparr>))"

definition reset_pin_attempts :: "RateLimiter \<Rightarrow> int \<Rightarrow> RateLimiter" where
  "reset_pin_attempts rl user_id =
     (if pin_attempts rl user_id \<noteq> None
      then rl\<lparr>pin_attempts := (pin_attempts rl)(user_id := None)\<rparr> else rl)"

definition reset_twofa_attempts :: "RateLimiter \<Rightarrow> int \<Rightarrow> RateLimiter" where
  "reset_twofa_attempts rl user_id =
     (if twofa_attempts rl user_id \<noteq> None
      then rl\<lparr>twofa_attempts := (twofa_attempts rl)(user_id := None)\<rparr> else rl)"

definition get_pin_attempts_remaining :: "RateLimiter \<Rightarrow> int \<Rightarrow> real \<Rightarrow> int \<times> RateLimiter" where
  "get_pin_attempts_remaining rl user_id current_time =
     (let user_attempts =
            filter (\<lambda>attempt_time. current_time - attempt_time < of_int (pin_lockout_duration rl))
              (default_list (pin_attempts rl user_id))
      in (max 0 (max_pin_attempts rl - int (length user_attempts)),
          rl\<lparr>pin_attempts := (pin_attempts rl)(user_id \<mapsto> user_attempts)\<rparr>))"

definition get_twofa_attempts_remaining :: "RateLimiter \<Rightarrow> int \<Rightarrow> real \<Rightarrow> int \<times> RateLimiter" where
  "get_twofa_attempts_remaining rl user_id current_time =
     (let user_attempts =
            filter (\<lambda>attempt_time. current_time - attempt_time < of_int (twofa_lockout_duration rl))
              (default_list (twofa_attempts rl user_id))
      in (max 0 (max_twofa_attempts rl - int (length user_attempts)),
          rl\<lparr>twofa_attempts := (twofa_attempts rl)(user_id \<mapsto> user_attempts)\<rparr>))"

text \<open>
  The three rate categories of the specification and their parts of the limiter:
  \<open>check\<close> is the check of a category, \<open>check_calls\<close> a sequence of checks of one
  principal at the given clock readings, with the result of each.
\<close>

datatype category = GateSecret | SecondFactor | GeneralRequest

fun check :: "category \<Rightarrow> RateLimiter \<Rightarrow> int \<Rightarrow> real \<Rightarrow> (error + rate_result) \<times> RateLimiter" where
  "check GateSecret rl user_id now = check_pin_rate_limit rl user_id now"
| "check SecondFactor rl user_id now = check_twofa_rate_limit rl user_id now"
| "check GeneralRequest rl user_id now = check_request_rate_limit rl user_id now"

fun attempts_of :: "category \<Rightarrow> RateLimiter \<Rightarrow> int \<rightharpoonup> real list" where
  "attempts_of GateSecret rl = pin_attempts rl"
| "attempts_of SecondFactor rl = twofa_attempts rl"
| "attempts_of GeneralRequest rl = request_counts rl"

fun max_of :: "category \<Rightarrow> RateLimiter \<Rightarrow> int" where
  "max_of GateSecret rl = max_pin_attempts rl"
| "max_of SecondFactor rl = max_twofa_attempts rl"
| "max_of GeneralRequest rl = max_requests_per_minute rl"

fun window_of :: "category \<Rightarrow> RateLimiter \<Rightarrow> int" where
  "window_of GateSecret rl = pin_lockout_duration rl"
| "window_of SecondFactor rl = twofa_lockout_duration rl"
| "window_of GeneralRequest rl = request_window rl"

fun check_calls ::
  "category \<Rightarrow> int \<Rightarrow> real list \<Rightarrow> RateLimiter \<Rightarrow> (error + rate_result) list \<times> RateLimiter" where
  "check_calls cat user_id [] rl = ([], rl)"
| "check_calls cat user_id (t # ts) rl =
     (case check cat rl user_id t of
        (r, rl') \<Rightarrow> (case check_calls cat user_id ts rl' of (rs, rl'') \<Rightarrow> (r # rs, rl'')))"

text \<open>
  The list computation that the three checks share: the pruned list is kept on a denial,
  and the clock reading is appended to it otherwise.
\<close>

definition pruned :: "int \<Rightarrow> real \<Rightarrow> real list \<Rightarrow> real list" where
  "pruned window now xs = filter (\<lambda>t. now - t < of_int window) xs"

definition check_window ::
  "int \<Rightarrow> int \<Rightarrow> real \<Rightarrow> real list \<Rightarrow> (error + rate_result) \<times> real list" where
  "check_window window mx now xs =
     (let ys = pruned window now xs
      in if int (length ys) \<ge> mx then
           (case py_min ys of
              Inl e \<Rightarrow> (Inl e, ys)
            | Inr oldest \<Rightarrow> (Inr (Denied (py_int (of_int window - (now - oldest)))), ys))
         else (Inr (Allowed (mx - int (length (ys @ [now])))), ys @ [now]))"


text \<open>
  The states of a limiter: a new limiter of any settings, and what the operations of the
  class make of it at any arguments and clock readings.
\<close>

inductive limiter_reachable :: "RateLimiter \<Rightarrow> bool" where
  new: "limiter_reachable (rate_limiter_init max_pin max_twofa max_requests pin_lockout twofa_lockout)"
| checked: "limiter_reachable rl \<Longrightarrow> limiter_reachable (snd (check cat rl p now))"
| pin_reset: "limiter_reachable rl \<Longrightarrow> limiter_reachable (reset_pin_attempts rl p)"
| twofa_reset: "limiter_reachable rl \<Longrightarrow> limiter_reachable (reset_twofa_attempts rl p)"
| pin_remaining:
    "limiter_reachable rl \<Longrightarrow> limiter_reachable (snd (get_pin_attempts_remaining rl p now))"
| twofa_remaining:
    "limiter_reachable rl \<Longrightarrow> limiter_reachable (snd (get_twofa_attempts_remaining rl p now))"

section \<open>Python's \<open>str\<close> of an integer\<close>

text \<open>
  The second-factor store is keyed by \<open>str(user_id)\<close>, and \<open>is_user_allowed\<close> compares
  \<open>str\<close> of the ids: the decimal text of an integer, with a leading \<open>-\<close> when negative.
\<close>

definition digit_char :: "nat \<Rightarrow> char" where
  "digit_char d = char_of (48 + d)"

fun str_nat :: "nat \<Rightarrow> string" where
  "str_nat n = (if n < 10 then [digit_char n] else str_nat (n div 10) @ [digit_char (n mod 10)])"

declare str_nat.simps [simp del]

definition str_int :: "int \<Rightarrow> string" where
  "str_int i = (if i < 0 then CHR ''-'' # str_nat (nat (- i)) else str_nat (nat i))"

text \<open>Reading a decimal text back, used to show that \<open>str_int\<close> is injective.\<close>

definition digit_val :: "char \<Rightarrow> nat" where
  "digit_val c = of_char c - 48"

definition nat_of_digits :: "string \<Rightarrow> nat" where
  "nat_of_digits s = foldl (\<lambda>acc c. 10 * acc + digit_val c) 0 s"

section \<open>email\_auth.py: Email2FA\<close>

text \<open>
  One pending code, a value of \<open>codes_data["codes"]\<close>. The field \<open>expires_at\<close> is a text
  in the format \<open>%Y-%m-%d %H:%M:%S\<close>: it is modelled as the second it denotes
  (\<open>Some\<close> of the number of seconds since the epoch), and as \<open>None\<close> when it is a text that
  \<open>strptime\<close> rejects. \<open>strftime\<close> drops the microseconds.
\<close>

record code_info =
  code :: string
  expires_at :: "int option"
  attempts :: int
  max_attempts :: int
  username :: string

definition strftime :: "datetime \<Rightarrow> int option" where
  "strftime t = Some (t div 1000000)"

definition strptime :: "int option \<Rightarrow> error + datetime" where
  "strptime text = (case text of None \<Rightarrow> Inl ValueError | Some sec \<Rightarrow> Inr (sec * 1000000))"

text \<open>
  The manager: \<open>codes_data\<close> is the dictionary \<open>codes_data["codes"]\<close> in insertion order,
  keyed by \<open>str(user_id)\<close>; \<open>codes_file\<close> is the dictionary that the file on disk holds.
  The three settings of \<open>__init__\<close> are constants; \<open>self.max_attempts\<close> is written
  \<open>self_max_attempts\<close>, apart from the field \<open>max_attempts\<close> of a pending code.
\<close>

record Email2FA =
  codes_data :: "(string \<times> code_info) list"
  codes_file :: "(string \<times> code_info) list"

definition code_length :: nat where
  "code_length = 6"

definition code_expiry_minutes :: int where
  "code_expiry_minutes = 60"

definition self_max_attempts :: int where
  "self_max_attempts = 3"

definition email_2fa_init :: Email2FA where
  "email_2fa_init = \<lparr>codes_data = [], codes_file = []\<rparr>"

text \<open>
  \<open>_save_codes\<close> writes the dictionary to the file; an \<open>IOError\<close> is caught and logged, and
  the file is then taken to keep its former content. Whether the write succeeds is an input
  of the model (\<open>disk_ok\<close>), one for each write of an operation.
\<close>

definition save_codes :: "bool \<Rightarrow> Email2FA \<Rightarrow> Email2FA" where
  "save_codes disk_ok s = (if disk_ok then s\<lparr>codes_file := codes_data s\<rparr> else s)"

definition is_code_expired :: "datetime \<Rightarrow> int option \<Rightarrow> bool" where
  "is_code_expired now expires =
     (case strptime expires of Inl e \<Rightarrow> True | Inr expiry_time \<Rightarrow> now > expiry_time)"

definition cleanup_expired_codes :: "Email2FA \<Rightarrow> datetime \<Rightarrow> bool \<Rightarrow> Email2FA" where
  "cleanup_expired_codes s now disk_ok =
     (let expired_users =
            map fst (filter (\<lambda>(user_id, info). is_code_expired now (expires_at info)) (codes_data s));
          s' = s\<lparr>codes_data := fold AList.delete expired_users (codes_data s)\<rparr>
      in if expired_users \<noteq> [] then save_codes disk_ok s' else s')"

text \<open>
  \<open>send_verification_code\<close>: \<open>new_code\<close> is the result of \<open>_generate_code\<close> and \<open>sent\<close>
  tells whether building and sending the mail went through without an exception; the mail
  settings have no other effect. The result is the code, or \<open>None\<close>.
\<close>

definition send_verification_code ::
  "Email2FA \<Rightarrow> int \<Rightarrow> string \<Rightarrow> datetime \<Rightarrow> string \<Rightarrow> bool \<Rightarrow> bool \<Rightarrow> bool \<Rightarrow> bool
     \<Rightarrow> string option \<times> Email2FA" where
  "send_verification_code s user_id name now new_code sent disk1 disk2 disk3 =
     (let s1 = cleanup_expired_codes s now disk1;
          expires = now + timedelta_minutes code_expiry_minutes;
          s2 = save_codes disk2
                 (s1\<lparr>codes_data :=
                       AList.update (str_int user_id)
                         \<lparr>code = new_code, expires_at = strftime expires, attempts = 0,
                          max_attempts = self_max_attempts, username = name\<rparr>
                         (codes_data s1)\<rparr>)
      in if sent then (Some new_code, s2)
         else if map_of (codes_data s2) (str_int user_id) \<noteq> None then
           (None, save_codes disk3
                    (s2\<lparr>codes_data := AList.delete (str_int user_id) (codes_data s2)\<rparr>))
         else (None, s2))"

text \<open>
  The result dictionary of \<open>verify_code\<close>. The message is one of five texts; the text of a
  wrong code ends with the number of attempts that remain.
\<close>

datatype message = CodeNotFound | CodeExpired | AttemptsExceeded | CodeConfirmed | WrongCode int

record verify_result =
  success :: bool
  message :: message
  can_retry :: bool

definition verify_code ::
  "Email2FA \<Rightarrow> int \<Rightarrow> string \<Rightarrow> datetime \<Rightarrow> bool \<Rightarrow> bool \<Rightarrow> verify_result \<times> Email2FA" where
  "verify_code s user_id input_code now disk1 disk2 =
     (let user_id_str = str_int user_id
      in case map_of (codes_data s) user_id_str of
           None \<Rightarrow> (\<lparr>success = False, message = CodeNotFound, can_retry = False\<rparr>, s)
         | Some info \<Rightarrow>
             if is_code_expired now (expires_at info) then
               (\<lparr>success = False, message = CodeExpired, can_retry = False\<rparr>,
                save_codes disk1 (s\<lparr>codes_data := AList.delete user_id_str (codes_data s)\<rparr>))
             else if attempts info \<ge> max_attempts info then
               (\<lparr>success = False, message = AttemptsExceeded, can_retry = False\<rparr>,
                save_codes disk1 (s\<lparr>codes_data := AList.delete user_id_str (codes_data s)\<rparr>))
             else if input_code = code info then
               (\<lparr>success = True, message = CodeConfirmed, can_retry = False\<rparr>,
                save_codes disk1 (s\<lparr>codes_data := AList.delete user_id_str (codes_data s)\<rparr>))
             else
               (let info' = info\<lparr>attempts := attempts info + 1\<rparr>;
                    remaining_attempts = max_attempts info' - attempts info';
                    s1 = save_codes disk1
                           (s\<lparr>codes_data := AList.update user_id_str info' (codes_data s)\<rparr>)
                in if remaining_attempts > 0 then
                     (\<lparr>success = False, message = WrongCode remaining_attempts, can_retry = True\<rparr>,
                      s1)
                   else
                     (\<lparr>success = False, message = AttemptsExceeded, can_retry = False\<rparr>,
                      save_codes disk2
                        (s1\<lparr>codes_data := AList.delete user_id_str (codes_data s1)\<rparr>))))"

definition resend_code ::
  "Email2FA \<Rightarrow> int \<Rightarrow> string \<Rightarrow> datetime \<Rightarrow> string \<Rightarrow> bool \<Rightarrow> bool \<Rightarrow> bool \<Rightarrow> bool \<Rightarrow> bool
     \<Rightarrow> string option \<times> Email2FA" where
  "resend_code s user_id name now new_code sent disk0 disk1 disk2 disk3 =
     (let s0 = (if map_of (codes_data s) (str_int user_id) \<noteq> None
                then save_codes disk0
                       (s\<lparr>codes_data := AList.delete (str_int user_id) (codes_data s)\<rparr>)
                else s)
      in send_verification_code s0 user_id name now new_code sent disk1 disk2 disk3)"

section \<open>auth.py: AuthManager\<close>

text \<open>
  The registry \<open>allowed_users\<close> has the two lists \<open>"users"\<close> and \<open>"pending_requests"\<close>. An
  entry of either list is a dictionary of the user id, the user name and the text of the
  clock reading (\<open>approved_at\<close>, \<open>timestamp\<close>), kept here as the reading itself. The keys
  \<open>"user_id"\<close> and \<open>"username"\<close> of a pending request are the fields \<open>request_user_id\<close>
  and \<open>request_user_name\<close>, and \<open>"username"\<close> of an approved user is \<open>user_name\<close>: the
  fields of all records share one name space.
\<close>

record user_entry =
  user_id :: int
  user_name :: string
  approved_at :: datetime

record request_entry =
  request_user_id :: int
  request_user_name :: string
  timestamp :: datetime

record registry =
  users :: "user_entry list"
  pending_requests :: "request_entry list"

text \<open>
  The manager: the registry in memory and the registry that the file holds. As for the codes,
  \<open>_save_allowed_users\<close> catches and logs an \<open>IOError\<close>, and \<open>disk_ok\<close> tells whether the
  write succeeds.
\<close>

record AuthManager =
  allowed_users :: registry
  allowed_users_file :: registry

definition auth_init :: AuthManager where
  "auth_init = \<lparr>allowed_users = \<lparr>users = [], pending_requests = []\<rparr>,
                allowed_users_file = \<lparr>users = [], pending_requests = []\<rparr>\<rparr>"

definition save_allowed_users :: "bool \<Rightarrow> AuthManager \<Rightarrow> AuthManager" where
  "save_allowed_users disk_ok am =
     (if disk_ok then am\<lparr>allowed_users_file := allowed_users am\<rparr> else am)"

definition is_user_allowed :: "AuthManager \<Rightarrow> int \<Rightarrow> bool" where
  "is_user_allowed am uid =
     (str_int uid \<in> set (map (\<lambda>u. str_int (user_id u)) (users (allowed_users am))))"

definition add_user_request :: "AuthManager \<Rightarrow> int \<Rightarrow> string \<Rightarrow> datetime \<Rightarrow> bool \<Rightarrow> AuthManager" where
  "add_user_request am uid name now disk_ok =
     (if \<exists>request \<in> set (pending_requests (allowed_users am)). request_user_id request = uid
      then am
      else save_allowed_users disk_ok
             (am\<lparr>allowed_users := (allowed_users am)
                   \<lparr>pending_requests := pending_requests (allowed_users am)
                      @ [\<lparr>request_user_id = uid, request_user_name = name, timestamp = now\<rparr>]\<rparr>\<rparr>))"

definition approve_user ::
  "AuthManager \<Rightarrow> int \<Rightarrow> string \<Rightarrow> datetime \<Rightarrow> bool \<Rightarrow> bool \<times> AuthManager" where
  "approve_user am uid name now disk_ok =
     (let am1 = am\<lparr>allowed_users := (allowed_users am)
                    \<lparr>pending_requests :=
                       filter (\<lambda>req. request_user_id req \<noteq> uid)
                         (pending_requests (allowed_users am))\<rparr>\<rparr>
      in if \<not> is_user_allowed am1 uid then
           (True, save_allowed_users disk_ok
                    (am1\<lparr>allowed_users := (allowed_users am1)
                          \<lparr>users := users (allowed_users am1)
                             @ [\<lparr>user_id = uid, user_name = name, approved_at = now\<rparr>]\<rparr>\<rparr>))
         else (False, am1))"

definition deny_user :: "AuthManager \<Rightarrow> int \<Rightarrow> string \<Rightarrow> bool \<Rightarrow> bool \<times> AuthManager" where
  "deny_user am uid name disk_ok =
     (let original_count = length (pending_requests (allowed_users am));
          am1 = am\<lparr>allowed_users := (allowed_users am)
                    \<lparr>pending_requests :=
                       filter (\<lambda>req. request_user_id req \<noteq> uid)
                         (pending_requests (allowed_users am))\<rparr>\<rparr>
      in if length (pending_requests (allowed_users am1)) < original_count
         then (True, save_allowed_users disk_ok am1)
         else (False, am1))"

definition revoke_user_access :: "AuthManager \<Rightarrow> int \<Rightarrow> bool \<Rightarrow> bool \<times> AuthManager" where
  "revoke_user_access am uid disk_ok =
     (let original_count = length (users (allowed_users am));
          am1 = am\<lparr>allowed_users := (allowed_users am)
                    \<lparr>users := filter (\<lambda>user. user_id user \<noteq> uid) (users (allowed_users am))\<rparr>\<rparr>
      in if length (users (allowed_users am1)) < original_count
         then (True, save_allowed_users disk_ok am1)
         else (False, am1))"

definition get_pending_requests :: "AuthManager \<Rightarrow> request_entry list" where
  "get_pending_requests am = pending_requests (allowed_users am)"

definition get_allowed_users :: "AuthManager \<Rightarrow> user_entry list" where
  "get_allowed_users am = users (allowed_users am)"

text \<open>
  The states that the four mutating operations reach from the empty registry, for any
  arguments, clock readings and outcomes of the writes.
\<close>

inductive reachable :: "AuthManager \<Rightarrow> bool" where
  init: "reachable auth_init"
| request: "reachable am \<Longrightarrow> reachable (add_user_request am uid name now disk_ok)"
| approve: "reachable am \<Longrightarrow> reachable (snd (approve_user am uid name now disk_ok))"
| deny: "reachable am \<Longrightarrow> reachable (snd (deny_user am uid name disk_ok))"
| revoke: "reachable am \<Longrightarrow> reachable (snd (revoke_user_access am uid disk_ok))"

text \<open>
  The first invariant of the data model: no principal is both approved and pending.
\<close>

definition exclusive :: "AuthManager \<Rightarrow> bool" where
  "exclusive am \<longleftrightarrow>
     user_id ` set (users (allowed_users am))
       \<inter> request_user_id ` set (pending_requests (allowed_users am)) = {}"

section \<open>Properties of CSRFManager\<close>

text \<open>
  C9. For every manager state, user, clock reading and incoming string that does not contain
  the delimiter \<open>|csrf:\<close>, \<open>extract_callback_data\<close> returns \<open>None\<close> (invalid, never the raw
  string) and leaves the token state as it was.
\<close>

theorem extract_without_delimiter_rejected:
  assumes "\<not> str_contains csrf_delim callback_data"
  shows "extract_callback_data m p callback_data now = (Inr None, m)"
  using assms by (simp add: extract_callback_data_def)

theorem extract_without_delimiter_rejected_witness:
  "\<not> str_contains csrf_delim ''approve_42'' \<and>
   extract_callback_data csrf_init 7 ''approve_42'' 1000 = (Inr None, csrf_init)"
proof -
  have h: "\<not> str_contains csrf_delim ''approve_42''"
    by (simp add: csrf_delim_def)
  show ?thesis
    using h extract_without_delimiter_rejected [OF h, of csrf_init 7 1000] by simp
qed

subsection \<open>Splitting a bound action\<close>

lemma rfind_split_no_bar:
  "CHR ''|'' \<notin> set s \<Longrightarrow> rfind_split csrf_delim s = None"
  by (induction s) (auto simp: csrf_delim_def)

lemma rfind_split_bound:
  assumes "CHR ''|'' \<notin> set tok"
  shows "rfind_split csrf_delim (a @ csrf_delim @ tok) = Some (a, tok)"
proof (induction a)
  case Nil
  have "rfind_split csrf_delim (''csrf:'' @ tok) = None"
    using assms by (intro rfind_split_no_bar) auto
  then show ?case by (simp add: csrf_delim_def)
next
  case (Cons c a)
  then show ?case by simp
qed

lemma str_contains_bound: "str_contains csrf_delim (a @ csrf_delim @ tok)"
  by (induction a) (auto simp: csrf_delim_def)

lemma rsplit1_bound:
  "CHR ''|'' \<notin> set tok \<Longrightarrow> rsplit1 csrf_delim (a @ csrf_delim @ tok) = [a, tok]"
  by (simp add: rsplit1_def rfind_split_bound)

lemma extract_bound:
  "CHR ''|'' \<notin> set tok \<Longrightarrow>
   extract_callback_data m u (a @ csrf_delim @ tok) now =
     (case validate_token m u tok now of
        (Inl e, m') \<Rightarrow> (Inl e, m')
      | (Inr ok, m') \<Rightarrow> if \<not> ok then (Inr None, m') else (Inr (Some a), m'))"
  by (simp add: extract_callback_data_def str_contains_bound rsplit1_bound)

lemma rfind_split_Some: "rfind_split sep s = Some (a, b) \<Longrightarrow> s = a @ sep @ b"
proof (induction s arbitrary: a b)
  case Nil
  then show ?case by simp
next
  case (Cons c cs)
  show ?case
  proof (cases "rfind_split sep cs")
    case None
    with Cons.prems have p: "prefix sep (c # cs)" and a: "a = []"
      and b: "b = drop (length sep) (c # cs)"
      by (auto split: if_splits)
    from p obtain zs where "c # cs = sep @ zs" by (auto simp: prefix_def)
    then show ?thesis using a b by simp
  next
    case (Some ab)
    obtain a' b' where ab: "ab = (a', b')" by (cases ab)
    with Some Cons.prems have "a = c # a'" "b = b'" by auto
    moreover have "cs = a' @ sep @ b'" using Some ab by (intro Cons.IH) simp
    ultimately show ?thesis by simp
  qed
qed

lemma extract_accepts_only_current_token:
  assumes "fst (extract_callback_data m q cb now) = Inr (Some x)"
  shows "\<exists>tk e. user_tokens m q = Some tk \<and> token_expiry m q = Some e \<and> now \<le> e
           \<and> cb = x @ csrf_delim @ tk"
proof -
  from assms obtain t where sp: "rsplit1 csrf_delim cb = [x, t]"
    and v: "fst (validate_token m q t now) = Inr True"
    by (auto simp: extract_callback_data_def split: if_splits list.splits prod.splits sum.splits)
  from sp have "rfind_split csrf_delim cb = Some (x, t)"
    by (auto simp: rsplit1_def split: option.splits)
  then have cb: "cb = x @ csrf_delim @ t" by (rule rfind_split_Some)
  from v obtain e where "user_tokens m q = Some t" "token_expiry m q = Some e" "now \<le> e"
    by (auto simp: validate_token_def split: option.splits if_splits)
  with cb show ?thesis by blast
qed

text \<open>
  C4. A token of \<open>secrets.token_urlsafe\<close> is made of letters, digits, \<open>-\<close> and \<open>_\<close>, so it
  holds no \<open>|\<close>; this is assumed of the fresh token and of the token already stored for the
  principal. In a state where a principal with a token also has an expiry, binding an action
  \<open>a\<close> for principal \<open>p\<close> returns \<open>a\<close>, the delimiter and \<open>p\<close>'s current token, and then
  \<^item> unbinding the bound action for \<open>p\<close> at any time not after the token's expiry returns
    \<open>a\<close> and changes nothing (round trip);
  \<^item> unbinding it after the expiry returns invalid (and drops the token);
  \<^item> unbinding a bound action whose embedded token differs from \<open>p\<close>'s stored token
    returns invalid (tampered token);
  \<^item> another principal \<open>q\<close>, whose own token is not this one, gets invalid when it
    presents \<open>p\<close>'s bound action (token of a different principal);
  \<^item> whatever string a principal presents, it is accepted only if it ends with the delimiter
    and that principal's own stored token, at a time not after the token's expiry.
\<close>

theorem bind_unbind_round_trip_and_rejection:
  assumes alphabet: "CHR ''|'' \<notin> set fresh"
      "\<forall>t. user_tokens m p = Some t \<longrightarrow> CHR ''|'' \<notin> set t"
    and consistent: "user_tokens m p \<noteq> None \<longrightarrow> token_expiry m p \<noteq> None"
  shows "\<exists>bound m1 tok e.
           add_csrf_to_callback_data m p a now1 fresh = (Inr bound, m1)
         \<and> bound = a @ csrf_delim @ tok
         \<and> user_tokens m1 p = Some tok \<and> token_expiry m1 p = Some e
         \<and> (\<forall>now2. now2 \<le> e \<longrightarrow> extract_callback_data m1 p bound now2 = (Inr (Some a), m1))
         \<and> (\<forall>now2. e < now2 \<longrightarrow>
               extract_callback_data m1 p bound now2 = (Inr None, cleanup_user_token m1 p))
         \<and> (\<forall>now2 t'. t' \<noteq> tok \<longrightarrow> CHR ''|'' \<notin> set t' \<longrightarrow>
               fst (extract_callback_data m1 p (a @ csrf_delim @ t') now2) = Inr None)
         \<and> (\<forall>q now2. q \<noteq> p \<longrightarrow> user_tokens m1 q \<noteq> Some tok \<longrightarrow>
               (user_tokens m1 q \<noteq> None \<longrightarrow> token_expiry m1 q \<noteq> None) \<longrightarrow>
               fst (extract_callback_data m1 q bound now2) = Inr None)
         \<and> (\<forall>q cb now2 x. fst (extract_callback_data m1 q cb now2) = Inr (Some x) \<longrightarrow>
               (\<exists>tk e'. user_tokens m1 q = Some tk \<and> token_expiry m1 q = Some e' \<and> now2 \<le> e'
                  \<and> cb = x @ csrf_delim @ tk))"
proof -
  obtain r m1 where bind: "add_csrf_to_callback_data m p a now1 fresh = (r, m1)"
    by (cases "add_csrf_to_callback_data m p a now1 fresh")
  from bind alphabet consistent
  obtain tok e where r: "r = Inr (a @ csrf_delim @ tok)"
    and tok: "user_tokens m1 p = Some tok" and e: "token_expiry m1 p = Some e"
    and bar: "CHR ''|'' \<notin> set tok"
    by (auto simp: add_csrf_to_callback_data_def get_user_token_def generate_token_def
          cleanup_user_token_def split: option.splits if_splits)
  have rt: "extract_callback_data m1 p (a @ csrf_delim @ tok) now2 = (Inr (Some a), m1)"
    if "now2 \<le> e" for now2
    using that tok e bar by (simp add: extract_bound validate_token_def)
  have ex: "extract_callback_data m1 p (a @ csrf_delim @ tok) now2
              = (Inr None, cleanup_user_token m1 p)"
    if "e < now2" for now2
    using that tok e bar by (simp add: extract_bound validate_token_def)
  have tam: "fst (extract_callback_data m1 p (a @ csrf_delim @ t') now2) = Inr None"
    if "t' \<noteq> tok" "CHR ''|'' \<notin> set t'" for t' now2
    using that tok e by (simp add: extract_bound validate_token_def)
  have oth: "fst (extract_callback_data m1 q (a @ csrf_delim @ tok) now2) = Inr None"
    if "user_tokens m1 q \<noteq> Some tok"
      "user_tokens m1 q \<noteq> None \<longrightarrow> token_expiry m1 q \<noteq> None" for q now2
    using that bar by (auto simp: extract_bound validate_token_def split: option.splits)
  have only: "\<exists>tk e'. user_tokens m1 q = Some tk \<and> token_expiry m1 q = Some e' \<and> now2 \<le> e'
                  \<and> cb = x @ csrf_delim @ tk"
    if "fst (extract_callback_data m1 q cb now2) = Inr (Some x)" for q cb now2 x
    using that by (rule extract_accepts_only_current_token)
  show ?thesis
    using bind r tok e rt ex tam oth only by blast
qed

theorem bind_unbind_round_trip_and_rejection_witness:
  "CHR ''|'' \<notin> set ''q1W2e3R4t5Y''
   \<and> user_tokens csrf_init 7 = None
   \<and> fst (add_csrf_to_callback_data csrf_init 7 ''approve_42'' 0 ''q1W2e3R4t5Y'')
       = Inr ''approve_42|csrf:q1W2e3R4t5Y''
   \<and> extract_callback_data
        (snd (add_csrf_to_callback_data csrf_init 7 ''approve_42'' 0 ''q1W2e3R4t5Y''))
        7 ''approve_42|csrf:q1W2e3R4t5Y'' 5
       = (Inr (Some ''approve_42''),
          snd (add_csrf_to_callback_data csrf_init 7 ''approve_42'' 0 ''q1W2e3R4t5Y''))
   \<and> fst (extract_callback_data
        (snd (add_csrf_to_callback_data csrf_init 7 ''approve_42'' 0 ''q1W2e3R4t5Y''))
        7 ''approve_42|csrf:q1W2e3R4t5X'' 5)
       = Inr None"
proof -
  let ?b = "add_csrf_to_callback_data csrf_init 7 ''approve_42'' 0 ''q1W2e3R4t5Y''"
  have h1: "CHR ''|'' \<notin> set ''q1W2e3R4t5Y''" by simp
  have h2: "\<forall>t. user_tokens csrf_init 7 = Some t \<longrightarrow> CHR ''|'' \<notin> set t"
    by (simp add: csrf_init_def)
  have h3: "user_tokens csrf_init 7 \<noteq> None \<longrightarrow> token_expiry csrf_init 7 \<noteq> None"
    by (simp add: csrf_init_def)
  have h4: "user_tokens csrf_init 7 = None"
    by (simp add: csrf_init_def)
  have b: "fst ?b = Inr ''approve_42|csrf:q1W2e3R4t5Y''"
    by (simp add: add_csrf_to_callback_data_def get_user_token_def generate_token_def
          csrf_init_def csrf_delim_def)
  have x: "token_expiry (snd ?b) 7 = Some 3600000000"
    by (simp add: add_csrf_to_callback_data_def get_user_token_def generate_token_def
          csrf_init_def timedelta_seconds_def token_lifetime_def)
  obtain bound m1 tok e where bind: "?b = (Inr bound, m1)"
    and bd: "bound = ''approve_42'' @ csrf_delim @ tok"
    and e: "token_expiry m1 7 = Some e"
    and rt: "\<forall>now2. now2 \<le> e \<longrightarrow>
               extract_callback_data m1 7 bound now2 = (Inr (Some ''approve_42''), m1)"
    and tam: "\<forall>now2 t'. t' \<noteq> tok \<longrightarrow> CHR ''|'' \<notin> set t' \<longrightarrow>
               fst (extract_callback_data m1 7 (''approve_42'' @ csrf_delim @ t') now2) = Inr None"
    using bind_unbind_round_trip_and_rejection [OF h1 h2 h3, of "''approve_42''" 0] by blast
  have m1: "m1 = snd ?b" and bound: "bound = ''approve_42|csrf:q1W2e3R4t5Y''"
    using bind b by simp_all
  have tk: "tok = ''q1W2e3R4t5Y''"
    using bd bound by (simp add: csrf_delim_def)
  have le: "5 \<le> e" using e x m1 by simp
  have r1: "extract_callback_data (snd ?b) 7 ''approve_42|csrf:q1W2e3R4t5Y'' 5
              = (Inr (Some ''approve_42''), snd ?b)"
    using rt le m1 bound by simp
  have "fst (extract_callback_data m1 7 (''approve_42'' @ csrf_delim @ ''q1W2e3R4t5X'') 5)
          = Inr None"
    using tam tk by simp
  then have r2: "fst (extract_callback_data (snd ?b) 7 ''approve_42|csrf:q1W2e3R4t5X'' 5)
                   = Inr None"
    using m1 by (simp add: csrf_delim_def)
  show ?thesis
    using h1 h4 b r1 r2 by simp
qed

section \<open>Properties of RateLimiter\<close>

subsection \<open>The three checks are one list computation\<close>

lemma check_fst:
  "fst (check cat rl p now)
     = fst (check_window (window_of cat rl) (max_of cat rl) now (default_list (attempts_of cat rl p)))"
  by (cases cat)
     (simp_all add: check_pin_rate_limit_def check_twofa_rate_limit_def check_request_rate_limit_def
        check_window_def pruned_def Let_def split: sum.splits)

lemma check_attempts:
  "attempts_of cat (snd (check cat rl p now))
     = (attempts_of cat rl)(p \<mapsto>
         snd (check_window (window_of cat rl) (max_of cat rl) now (default_list (attempts_of cat rl p))))"
  by (cases cat)
     (simp_all add: check_pin_rate_limit_def check_twofa_rate_limit_def check_request_rate_limit_def
        check_window_def pruned_def Let_def split: sum.splits)

lemma check_config:
  "max_of cat (snd (check cat rl p now)) = max_of cat rl"
  "window_of cat (snd (check cat rl p now)) = window_of cat rl"
  by (cases cat;
      simp add: check_pin_rate_limit_def check_twofa_rate_limit_def check_request_rate_limit_def
        Let_def split: sum.splits)+


subsection \<open>A sequence of checks inside one window\<close>



lemma py_min_Min: "xs \<noteq> [] \<Longrightarrow> py_min xs = Inr (Min (set xs))"
proof (cases xs)
  case Nil
  assume "xs \<noteq> []"
  with Nil show ?thesis by simp
next
  case (Cons a list)
  then show ?thesis using Min.set_eq_fold [of a list] by (simp add: py_min_def)
qed












lemma check_denied:
  assumes "fst (check cat rl p now) = Inr (Denied r)"
  shows "attempts_of cat (snd (check cat rl p now)) p
           = Some (pruned (window_of cat rl) now (default_list (attempts_of cat rl p)))"
  using assms unfolding check_fst check_attempts
  by (auto simp: check_window_def Let_def split: if_splits sum.splits)

lemma check_frame:
  "q \<noteq> p \<Longrightarrow> attempts_of c (snd (check cat rl p now)) q = attempts_of c rl q"
  "c \<noteq> cat \<Longrightarrow> attempts_of c (snd (check cat rl p now)) = attempts_of c rl"
  by (cases cat; cases c;
      simp add: check_pin_rate_limit_def check_twofa_rate_limit_def check_request_rate_limit_def
        Let_def split: sum.splits)+

lemma pruned_pruned: "now \<le> later \<Longrightarrow> pruned w later (pruned w now xs) = pruned w later xs"
  unfolding pruned_def filter_filter by (rule filter_cong) auto

lemma check_window_pruned:
  "now \<le> later \<Longrightarrow> check_window w mx later (pruned w now xs) = check_window w mx later xs"
  by (simp add: check_window_def pruned_pruned)

subsection \<open>Denials\<close>







lemma py_int_mono: "x \<le> y \<Longrightarrow> py_int x \<le> py_int y"
proof -
  assume xy: "x \<le> y"
  show ?thesis
  proof (cases "0 \<le> x")
    case True
    with xy show ?thesis by (simp add: py_int_def floor_mono)
  next
    case False
    show ?thesis
    proof (cases "0 \<le> y")
      case True
      have "\<lceil>x\<rceil> \<le> 0" using False by (simp add: ceiling_le_iff)
      moreover have "0 \<le> \<lfloor>y\<rfloor>" using True by simp
      ultimately have "\<lceil>x\<rceil> \<le> \<lfloor>y\<rfloor>" by linarith
      then show ?thesis using False True by (simp add: py_int_def)
    next
      case n: False
      with False xy show ?thesis by (simp add: py_int_def ceiling_mono)
    qed
  qed
qed

lemma check_window_length:
  "length (snd (check_window w mx now xs)) \<le> max (length xs) (nat mx)"
proof -
  have "length (pruned w now xs) \<le> length xs" by (simp add: pruned_def)
  then show ?thesis
    by (auto simp: check_window_def Let_def split: sum.splits)
qed

lemma check_max_of [simp]: "max_of c (snd (check cat rl p now)) = max_of c rl"
  by (cases cat; cases c;
      simp add: check_pin_rate_limit_def check_twofa_rate_limit_def check_request_rate_limit_def
        Let_def split: sum.splits)

lemma check_attempts_other:
  "attempts_of c (snd (check cat rl p now)) q
     = (if c = cat \<and> q = p
        then Some (snd (check_window (window_of cat rl) (max_of cat rl) now
                          (default_list (attempts_of cat rl p))))
        else attempts_of c rl q)"
  using check_attempts [of cat rl p now] check_frame(1) [of q p c cat rl now]
    check_frame(2) [of c cat rl p now]
  by (cases "c = cat"; cases "q = p") auto

lemma limiter_reachable_length:
  "limiter_reachable rl \<Longrightarrow> length (default_list (attempts_of c rl q)) \<le> nat (max_of c rl)"
proof (induction arbitrary: c q rule: limiter_reachable.induct)
  case (new max_pin max_twofa max_requests pin_lockout twofa_lockout)
  show ?case by (cases c) (simp_all add: rate_limiter_init_def default_list_def)
next
  case (checked rl cat p now)
  show ?case
    using checked.IH [of c q] checked.IH [of cat p]
      check_window_length [of "window_of cat rl" "max_of cat rl" now
        "default_list (attempts_of cat rl p)"]
    by (auto simp: check_attempts_other default_list_def)
next
  case (pin_reset rl p)
  show ?case
    using pin_reset.IH [of c q]
    by (cases c) (auto simp: reset_pin_attempts_def default_list_def)
next
  case (twofa_reset rl p)
  show ?case
    using twofa_reset.IH [of c q]
    by (cases c) (auto simp: reset_twofa_attempts_def default_list_def)
next
  case (pin_remaining rl p now)
  have "length (filter P (default_list (attempts_of GateSecret rl p)))
          \<le> nat (max_of GateSecret rl)" for P
    using pin_remaining.IH [of GateSecret p] le_trans [OF length_filter_le] by blast
  then show ?case
    using pin_remaining.IH [of c q]
    by (cases c) (auto simp: get_pin_attempts_remaining_def Let_def default_list_def)
next
  case (twofa_remaining rl p now)
  have "length (filter P (default_list (attempts_of SecondFactor rl p)))
          \<le> nat (max_of SecondFactor rl)" for P
    using twofa_remaining.IH [of SecondFactor p] le_trans [OF length_filter_le] by blast
  then show ?case
    using twofa_remaining.IH [of c q]
    by (cases c) (auto simp: get_twofa_attempts_remaining_def Let_def default_list_def)
qed

lemma filter_all_of_length:
  "length xs \<le> n \<Longrightarrow> n \<le> length (filter P xs) \<Longrightarrow> filter P xs = xs"
  by (metis filter_True le_antisym length_filter_le length_filter_less not_less order_trans)

lemma denied_twice_wait:
  assumes bound: "length xs \<le> nat mx"
    and d1: "fst (check_window w mx now xs) = Inr (Denied r1)"
    and d2: "fst (check_window w mx later (snd (check_window w mx now xs))) = Inr (Denied r2)"
    and le: "now \<le> later"
  shows "r2 \<le> r1"
proof -
  have ge1: "mx \<le> int (length (pruned w now xs))"
    using d1 by (auto simp: check_window_def Let_def split: if_splits sum.splits)
  have s1: "snd (check_window w mx now xs) = pruned w now xs"
    using d1 by (auto simp: check_window_def Let_def split: if_splits sum.splits)
  have p1: "pruned w now xs = xs"
    unfolding pruned_def using bound ge1 by (intro filter_all_of_length [of xs "nat mx"]) (auto simp: pruned_def)
  have d2': "fst (check_window w mx later xs) = Inr (Denied r2)"
    using d2 s1 p1 by simp
  have ge2: "mx \<le> int (length (pruned w later xs))"
    using d2' by (auto simp: check_window_def Let_def split: if_splits sum.splits)
  have p2: "pruned w later xs = xs"
    unfolding pruned_def using bound ge2 by (intro filter_all_of_length [of xs "nat mx"]) (auto simp: pruned_def)
  have ne: "xs \<noteq> []"
    using d1 p1 by (auto simp: check_window_def Let_def py_min_def split: if_splits sum.splits)
  have r1: "r1 = py_int (of_int w - (now - Min (set xs)))"
    using d1 p1 py_min_Min [OF ne] by (auto simp: check_window_def Let_def split: if_splits)
  have r2: "r2 = py_int (of_int w - (later - Min (set xs)))"
    using d2' p2 py_min_Min [OF ne] by (auto simp: check_window_def Let_def split: if_splits)
  show ?thesis
    unfolding r1 r2 using le by (intro py_int_mono) simp
qed

lemma limiter_reachable_check_calls:
  "limiter_reachable rl \<Longrightarrow> limiter_reachable (snd (check_calls cat p ts rl))"
proof (induction ts arbitrary: rl)
  case Nil
  then show ?case by simp
next
  case (Cons t ts)
  have "limiter_reachable (snd (check cat rl p t))"
    using Cons.prems by (rule limiter_reachable.checked)
  then have "limiter_reachable (snd (check_calls cat p ts (snd (check cat rl p t))))"
    by (rule Cons.IH)
  then show ?case by (auto split: prod.splits)
qed




text \<open>
  C10. For every principal and every rate category, a denied check stores the pruned list and
  nothing else: the principal's attempt list afterwards is the list before the call without
  the timestamps older than the window, the lists of the other principals and of the other
  categories are untouched, and a check at any later time gives the result and the list that
  it would have given had the denied call not been made. In a state of a limiter that its
  operations have reached, a further denied check at a later time reports a wait that is not
  longer: denied calls do not extend the wait.
\<close>

theorem denied_check_appends_nothing:
  assumes denied: "fst (check cat rl p now) = Inr (Denied r)"
  shows "attempts_of cat (snd (check cat rl p now)) p
           = Some (pruned (window_of cat rl) now (default_list (attempts_of cat rl p)))
       \<and> (\<forall>q. q \<noteq> p \<longrightarrow> attempts_of cat (snd (check cat rl p now)) q = attempts_of cat rl q)
       \<and> (\<forall>c. c \<noteq> cat \<longrightarrow> attempts_of c (snd (check cat rl p now)) = attempts_of c rl)
       \<and> (\<forall>later. now \<le> later \<longrightarrow>
            fst (check cat (snd (check cat rl p now)) p later) = fst (check cat rl p later)
          \<and> attempts_of cat (snd (check cat (snd (check cat rl p now)) p later)) p
              = attempts_of cat (snd (check cat rl p later)) p)
       \<and> (limiter_reachable rl \<longrightarrow>
            (\<forall>later r2. now \<le> later \<longrightarrow>
               fst (check cat (snd (check cat rl p now)) p later) = Inr (Denied r2) \<longrightarrow> r2 \<le> r))"
proof -
  let ?rl' = "snd (check cat rl p now)"
  let ?w = "window_of cat rl" and ?m = "max_of cat rl"
  let ?xs = "default_list (attempts_of cat rl p)"
  have kept: "attempts_of cat ?rl' p = Some (pruned ?w now ?xs)"
    using denied by (rule check_denied)
  have dl: "default_list (attempts_of cat ?rl' p) = pruned ?w now ?xs"
    using kept by (simp add: default_list_def)
  have cfg: "window_of cat ?rl' = ?w" "max_of cat ?rl' = ?m"
    by (simp_all add: check_config)
  have f1: "fst (check cat ?rl' p later)
              = fst (check_window ?w ?m later (pruned ?w now ?xs))" for later
    unfolding check_fst [of cat ?rl' p later] cfg dl ..
  have later: "fst (check cat ?rl' p later) = fst (check cat rl p later)
      \<and> attempts_of cat (snd (check cat ?rl' p later)) p
          = attempts_of cat (snd (check cat rl p later)) p"
    if "now \<le> later" for later
  proof -
    have a1: "attempts_of cat (snd (check cat ?rl' p later)) p
                = Some (snd (check_window ?w ?m later (pruned ?w now ?xs)))"
      unfolding check_attempts [of cat ?rl' p later] cfg dl by simp
    have f2: "fst (check cat rl p later) = fst (check_window ?w ?m later ?xs)"
      by (rule check_fst)
    have a2: "attempts_of cat (snd (check cat rl p later)) p
                = Some (snd (check_window ?w ?m later ?xs))"
      unfolding check_attempts [of cat rl p later] by simp
    show ?thesis
      unfolding f1 a1 f2 a2 check_window_pruned [OF that] by simp
  qed
  have wait: "r2 \<le> r"
    if reach: "limiter_reachable rl" and le: "now \<le> later"
      and d2: "fst (check cat ?rl' p later) = Inr (Denied r2)" for later r2
  proof -
    have bound: "length ?xs \<le> nat ?m"
      using reach by (rule limiter_reachable_length)
    have d1: "fst (check_window ?w ?m now ?xs) = Inr (Denied r)"
      using denied by (simp add: check_fst)
    have s1: "snd (check_window ?w ?m now ?xs) = pruned ?w now ?xs"
      using d1 by (auto simp: check_window_def Let_def split: if_splits sum.splits)
    have d2': "fst (check_window ?w ?m later (snd (check_window ?w ?m now ?xs))) = Inr (Denied r2)"
      using d2 unfolding f1 s1 .
    show ?thesis
      using bound d1 d2' le by (rule denied_twice_wait)
  qed
  show ?thesis
    using kept later wait by (simp add: check_frame)
qed

theorem denied_check_appends_nothing_witness:
  "limiter_reachable (snd (check_calls GateSecret 7 [1/2, 1, 3/2, 2, 5/2] rate_limiter_default))
   \<and> fst (check GateSecret
            (snd (check_calls GateSecret 7 [1/2, 1, 3/2, 2, 5/2] rate_limiter_default)) 7 3)
       = Inr (Denied 297)
   \<and> attempts_of GateSecret
        (snd (check GateSecret
                (snd (check_calls GateSecret 7 [1/2, 1, 3/2, 2, 5/2] rate_limiter_default)) 7 3)) 7
       = Some [1/2, 1, 3/2, 2, 5/2]
   \<and> fst (check GateSecret
            (snd (check GateSecret
                    (snd (check_calls GateSecret 7 [1/2, 1, 3/2, 2, 5/2] rate_limiter_default))
                    7 3)) 7 4)
       = Inr (Denied 296)"
proof -
  let ?rl = "snd (check_calls GateSecret 7 [1/2, 1, 3/2, 2, 5/2] rate_limiter_default)"
  have r: "limiter_reachable ?rl"
    unfolding rate_limiter_default_def
    by (intro limiter_reachable_check_calls limiter_reachable.new)
  have xs: "attempts_of GateSecret ?rl 7 = Some [1/2, 1, 3/2, 2, 5/2]"
    by (simp add: rate_limiter_default_def rate_limiter_init_def check_pin_rate_limit_def
          default_list_def Let_def)
  have w: "window_of GateSecret ?rl = 300"
    by (simp add: rate_limiter_default_def rate_limiter_init_def check_pin_rate_limit_def
          default_list_def Let_def)
  have h: "fst (check GateSecret ?rl 7 3) = Inr (Denied 297)"
    by (simp add: rate_limiter_default_def rate_limiter_init_def check_pin_rate_limit_def
          default_list_def py_min_def py_int_def Let_def)
  have k: "attempts_of GateSecret (snd (check GateSecret ?rl 7 3)) 7 = Some [1/2, 1, 3/2, 2, 5/2]"
    using denied_check_appends_nothing [OF h] xs w by (simp add: pruned_def default_list_def)
  have h2: "fst (check GateSecret (snd (check GateSecret ?rl 7 3)) 7 4) = Inr (Denied 296)"
    by (simp add: rate_limiter_default_def rate_limiter_init_def check_pin_rate_limit_def
          default_list_def py_min_def py_int_def Let_def)
  show ?thesis
    using r h k h2 by blast
qed

section \<open>Properties of Email2FA\<close>

lemma codes_data_save [simp]: "codes_data (save_codes ok s) = codes_data s"
  by (simp add: save_codes_def)


lemma is_code_expired_Some [simp]: "is_code_expired now (Some sec) = (now > sec * 1000000)"
  by (simp add: is_code_expired_def strptime_def)

lemma is_code_expired_None [simp]: "is_code_expired now None"
  by (simp add: is_code_expired_def strptime_def)

text \<open>
  C1. For every state of the store, principal, input code, clock reading and outcome of the
  writes, \<open>verify_code\<close> follows the case analysis, in this order. With \<open>k = str(user_id)\<close>:
  \<^item> no challenge stored under \<open>k\<close>: failure, \<open>can_retry = False\<close>, nothing changes;
  \<^item> the stored challenge is expired (\<open>now > expires_at\<close>, or \<open>expires_at\<close> is not a date):
    failure, \<open>can_retry = False\<close>, the challenge is discarded;
  \<^item> else \<open>attempts \<ge> max_attempts\<close>: failure, \<open>can_retry = False\<close>, discarded;
  \<^item> else the input equals the stored code: success, discarded;
  \<^item> else (mismatch) the attempts are incremented; when they have reached \<open>max_attempts\<close>:
    failure, \<open>can_retry = False\<close>, discarded; otherwise failure, \<open>can_retry = True\<close>, the
    message carries the number of remaining attempts and the challenge stays with the
    incremented count.
  The challenges of the other principals are untouched in every case.
\<close>

theorem verify_code_case_analysis:
  fixes s p input_code now disk1 disk2
  defines "k \<equiv> str_int p"
  defines "r \<equiv> fst (verify_code s p input_code now disk1 disk2)"
  defines "s' \<equiv> snd (verify_code s p input_code now disk1 disk2)"
  shows "(map_of (codes_data s) k = None \<longrightarrow>
            r = \<lparr>success = False, message = CodeNotFound, can_retry = False\<rparr> \<and> s' = s)
       \<and> (\<forall>info. map_of (codes_data s) k = Some info \<longrightarrow>
            (is_code_expired now (expires_at info) \<longrightarrow>
               r = \<lparr>success = False, message = CodeExpired, can_retry = False\<rparr>
               \<and> map_of (codes_data s') k = None)
          \<and> (\<not> is_code_expired now (expires_at info) \<longrightarrow> attempts info \<ge> max_attempts info \<longrightarrow>
               r = \<lparr>success = False, message = AttemptsExceeded, can_retry = False\<rparr>
               \<and> map_of (codes_data s') k = None)
          \<and> (\<not> is_code_expired now (expires_at info) \<longrightarrow> attempts info < max_attempts info \<longrightarrow>
               input_code = code info \<longrightarrow>
               r = \<lparr>success = True, message = CodeConfirmed, can_retry = False\<rparr>
               \<and> map_of (codes_data s') k = None)
          \<and> (\<not> is_code_expired now (expires_at info) \<longrightarrow> attempts info < max_attempts info \<longrightarrow>
               input_code \<noteq> code info \<longrightarrow> attempts info + 1 = max_attempts info \<longrightarrow>
               r = \<lparr>success = False, message = AttemptsExceeded, can_retry = False\<rparr>
               \<and> map_of (codes_data s') k = None)
          \<and> (\<not> is_code_expired now (expires_at info) \<longrightarrow> attempts info < max_attempts info \<longrightarrow>
               input_code \<noteq> code info \<longrightarrow> attempts info + 1 < max_attempts info \<longrightarrow>
               r = \<lparr>success = False,
                    message = WrongCode (max_attempts info - (attempts info + 1)),
                    can_retry = True\<rparr>
               \<and> map_of (codes_data s') k = Some (info\<lparr>attempts := attempts info + 1\<rparr>)))
       \<and> (\<forall>k'. k' \<noteq> k \<longrightarrow> map_of (codes_data s') k' = map_of (codes_data s) k')"
  unfolding r_def s'_def k_def
  by (auto simp: verify_code_def Let_def delete_conv' update_conv' split: option.splits)

theorem verify_code_case_analysis_witness:
  "map_of (codes_data \<lparr>codes_data = [(str_int 7, \<lparr>code = ''123456'', expires_at = Some 3600,
        attempts = 1, max_attempts = 3, username = ''u''\<rparr>)], codes_file = []\<rparr>) (str_int 7)
     = Some \<lparr>code = ''123456'', expires_at = Some 3600, attempts = 1, max_attempts = 3,
             username = ''u''\<rparr>
   \<and> \<not> is_code_expired 5 (Some 3600)
   \<and> fst (verify_code \<lparr>codes_data = [(str_int 7, \<lparr>code = ''123456'', expires_at = Some 3600,
        attempts = 1, max_attempts = 3, username = ''u''\<rparr>)], codes_file = []\<rparr>
        7 ''000000'' 5 True True)
     = \<lparr>success = False, message = WrongCode 1, can_retry = True\<rparr>
   \<and> fst (verify_code \<lparr>codes_data = [(str_int 7, \<lparr>code = ''123456'', expires_at = Some 3600,
        attempts = 1, max_attempts = 3, username = ''u''\<rparr>)], codes_file = []\<rparr>
        7 ''123456'' 5 True True)
     = \<lparr>success = True, message = CodeConfirmed, can_retry = False\<rparr>"
proof -
  let ?info = "\<lparr>code = ''123456'', expires_at = Some 3600, attempts = 1, max_attempts = 3,
             username = ''u''\<rparr>"
  let ?s = "\<lparr>codes_data = [(str_int 7, ?info)], codes_file = []\<rparr>"
  have h1: "map_of (codes_data ?s) (str_int 7) = Some ?info" by simp
  have h2: "\<not> is_code_expired 5 (Some 3600)" by simp
  have w: "fst (verify_code ?s 7 ''000000'' 5 True True)
             = \<lparr>success = False, message = WrongCode 1, can_retry = True\<rparr>"
    using verify_code_case_analysis [of ?s 7 "''000000''" 5 True True] h1 h2 by simp
  have c: "fst (verify_code ?s 7 ''123456'' 5 True True)
             = \<lparr>success = True, message = CodeConfirmed, can_retry = False\<rparr>"
    using verify_code_case_analysis [of ?s 7 "''123456''" 5 True True] h1 h2 by simp
  show ?thesis using h1 h2 w c by simp
qed



lemma verify_correct_code_once:
  assumes stored: "map_of (codes_data st) (str_int p) = Some info"
    and unexpired: "\<not> is_code_expired now2 (expires_at info)"
    and budget: "attempts info < max_attempts info"
  shows "fst (verify_code st p (code info) now2 e1 e2)
           = \<lparr>success = True, message = CodeConfirmed, can_retry = False\<rparr>"
    and "map_of (codes_data (snd (verify_code st p (code info) now2 e1 e2))) (str_int p) = None"
    and "fst (verify_code (snd (verify_code st p (code info) now2 e1 e2)) p c' now3 f1 f2)
           = \<lparr>success = False, message = CodeNotFound, can_retry = False\<rparr>"
proof -
  have v: "verify_code st p (code info) now2 e1 e2
             = (\<lparr>success = True, message = CodeConfirmed, can_retry = False\<rparr>,
                save_codes e1 (st\<lparr>codes_data := AList.delete (str_int p) (codes_data st)\<rparr>))"
    using stored unexpired budget by (simp add: verify_code_def Let_def)
  show "fst (verify_code st p (code info) now2 e1 e2)
           = \<lparr>success = True, message = CodeConfirmed, can_retry = False\<rparr>"
    by (simp add: v)
  show gone: "map_of (codes_data (snd (verify_code st p (code info) now2 e1 e2))) (str_int p)
                = None"
    by (simp add: v delete_conv')
  show "fst (verify_code (snd (verify_code st p (code info) now2 e1 e2)) p c' now3 f1 f2)
           = \<lparr>success = False, message = CodeNotFound, can_retry = False\<rparr>"
    using gone by (simp add: verify_code_def Let_def)
qed

text \<open>
  C7. For every state and principal: after \<open>send_verification_code\<close> has delivered the code
  \<open>c\<close>, the challenge is stored with no attempt made out of three; a \<open>verify_code\<close> with \<open>c\<close>
  at a time when the stored expiry has not passed returns success and removes the challenge;
  any further \<open>verify_code\<close> with \<open>c\<close> returns failure with \<open>can_retry = False\<close>. The same
  holds in any state in which the principal's challenge is not expired and has attempts below
  its maximum: \<open>verify_code\<close> with the stored code succeeds, and a second one fails with
  \<open>can_retry = False\<close>.
\<close>

theorem issue_then_verify_succeeds_once:
  fixes s p name now1 c d1 d2 d3 now2 e1 e2
  defines "s1 \<equiv> snd (send_verification_code s p name now1 c True d1 d2 d3)"
  defines "s2 \<equiv> snd (verify_code s1 p c now2 e1 e2)"
  shows "fst (send_verification_code s p name now1 c True d1 d2 d3) = Some c
       \<and> map_of (codes_data s1) (str_int p)
           = Some \<lparr>code = c,
                   expires_at = strftime (now1 + timedelta_minutes code_expiry_minutes),
                   attempts = 0, max_attempts = self_max_attempts, username = name\<rparr>
       \<and> (\<not> is_code_expired now2 (strftime (now1 + timedelta_minutes code_expiry_minutes)) \<longrightarrow>
             fst (verify_code s1 p c now2 e1 e2)
               = \<lparr>success = True, message = CodeConfirmed, can_retry = False\<rparr>
           \<and> map_of (codes_data s2) (str_int p) = None
           \<and> (\<forall>now3 f1 f2. fst (verify_code s2 p c now3 f1 f2)
                 = \<lparr>success = False, message = CodeNotFound, can_retry = False\<rparr>))
       \<and> (\<forall>st info now e1 e2. map_of (codes_data st) (str_int p) = Some info \<longrightarrow>
             \<not> is_code_expired now (expires_at info) \<longrightarrow> attempts info < max_attempts info \<longrightarrow>
               fst (verify_code st p (code info) now e1 e2)
                 = \<lparr>success = True, message = CodeConfirmed, can_retry = False\<rparr>
             \<and> (\<forall>now3 f1 f2.
                   fst (verify_code (snd (verify_code st p (code info) now e1 e2))
                          p (code info) now3 f1 f2)
                     = \<lparr>success = False, message = CodeNotFound, can_retry = False\<rparr>))"
proof -
  let ?info = "\<lparr>code = c,
                   expires_at = strftime (now1 + timedelta_minutes code_expiry_minutes),
                   attempts = 0, max_attempts = self_max_attempts, username = name\<rparr>"
  have r: "fst (send_verification_code s p name now1 c True d1 d2 d3) = Some c"
    by (simp add: send_verification_code_def Let_def)
  have st: "map_of (codes_data s1) (str_int p) = Some ?info"
    unfolding s1_def by (simp add: send_verification_code_def Let_def update_conv')
  have budget: "attempts ?info < max_attempts ?info"
    by (simp add: self_max_attempts_def)
  have direct: "fst (verify_code s1 p c now2 e1 e2)
               = \<lparr>success = True, message = CodeConfirmed, can_retry = False\<rparr>
           \<and> map_of (codes_data s2) (str_int p) = None
           \<and> (\<forall>now3 f1 f2. fst (verify_code s2 p c now3 f1 f2)
                 = \<lparr>success = False, message = CodeNotFound, can_retry = False\<rparr>)"
    if u: "\<not> is_code_expired now2 (strftime (now1 + timedelta_minutes code_expiry_minutes))"
  proof -
    have u': "\<not> is_code_expired now2 (expires_at ?info)" using u by simp
    show ?thesis
      unfolding s2_def
      using verify_correct_code_once [OF st u' budget, of e1 e2] by simp
  qed
  have general: "fst (verify_code st p (code info) now e1 e2)
                 = \<lparr>success = True, message = CodeConfirmed, can_retry = False\<rparr>
             \<and> (\<forall>now3 f1 f2.
                   fst (verify_code (snd (verify_code st p (code info) now e1 e2))
                          p (code info) now3 f1 f2)
                     = \<lparr>success = False, message = CodeNotFound, can_retry = False\<rparr>)"
    if "map_of (codes_data st) (str_int p) = Some info"
      "\<not> is_code_expired now (expires_at info)" "attempts info < max_attempts info"
    for st info now e1 e2
    using verify_correct_code_once [OF that, of e1 e2] by simp
  show ?thesis
    using r st direct general by blast
qed

theorem issue_then_verify_succeeds_once_witness:
  "\<not> is_code_expired 1800000000 (strftime (500000 + timedelta_minutes code_expiry_minutes))
   \<and> fst (verify_code
        (snd (send_verification_code email_2fa_init 7 ''u'' 500000 ''123456'' True True True True))
        7 ''123456'' 1800000000 True True)
     = \<lparr>success = True, message = CodeConfirmed, can_retry = False\<rparr>
   \<and> fst (verify_code
        (snd (verify_code
          (snd (send_verification_code email_2fa_init 7 ''u'' 500000 ''123456'' True True True True))
          7 ''123456'' 1800000000 True True))
        7 ''123456'' 1800000001 True True)
     = \<lparr>success = False, message = CodeNotFound, can_retry = False\<rparr>"
proof -
  have h: "\<not> is_code_expired 1800000000
             (strftime (500000 + timedelta_minutes code_expiry_minutes))"
    by (simp add: strftime_def timedelta_minutes_def code_expiry_minutes_def)
  show ?thesis
    using h issue_then_verify_succeeds_once
              [of email_2fa_init 7 "''u''" 500000 "''123456''" True True True
                  1800000000 True True]
    by blast
qed

section \<open>Properties of \<open>str\<close>\<close>

lemma digit_val_digit_char: "d < 10 \<Longrightarrow> digit_val (digit_char d) = d"
  by (simp add: digit_val_def digit_char_def)

lemma digit_char_not_minus: "d < 10 \<Longrightarrow> digit_char d \<noteq> CHR ''-''"
proof
  assume d: "d < 10" and eq: "digit_char d = CHR ''-''"
  from eq have "of_char (digit_char d) = (of_char (CHR ''-'') :: nat)" by simp
  with d show False by (simp add: digit_char_def)
qed

lemma nat_of_digits_snoc:
  "nat_of_digits (xs @ [c]) = 10 * nat_of_digits xs + digit_val c"
  by (simp add: nat_of_digits_def)

lemma nat_of_digits_str_nat: "nat_of_digits (str_nat n) = n"
proof (induction n rule: str_nat.induct)
  case (1 n)
  show ?case
  proof (cases "n < 10")
    case True
    then show ?thesis
      by (subst str_nat.simps) (simp add: nat_of_digits_def digit_val_digit_char)
  next
    case False
    then have "nat_of_digits (str_nat (n div 10)) = n div 10" by (rule "1.IH")
    with False show ?thesis
      by (subst str_nat.simps) (simp add: nat_of_digits_snoc digit_val_digit_char)
  qed
qed

lemma str_nat_inj: "str_nat a = str_nat b \<Longrightarrow> a = b"
  by (metis nat_of_digits_str_nat)

lemma str_nat_no_minus: "CHR ''-'' \<notin> set (str_nat n)"
proof (induction n rule: str_nat.induct)
  case (1 n)
  show ?case
  proof (cases "n < 10")
    case True
    then show ?thesis
      using digit_char_not_minus [of n] by (subst str_nat.simps) auto
  next
    case False
    then have "CHR ''-'' \<notin> set (str_nat (n div 10))" by (rule "1.IH")
    with False show ?thesis
      using digit_char_not_minus [of "n mod 10"] by (subst str_nat.simps) auto
  qed
qed

lemma str_int_eq_iff [simp]: "str_int a = str_int b \<longleftrightarrow> a = b"
proof
  assume eq: "str_int a = str_int b"
  show "a = b"
  proof (cases "a < 0"; cases "b < 0")
    assume "a < 0" "b < 0"
    with eq have "nat (- a) = nat (- b)" by (auto simp: str_int_def dest: str_nat_inj)
    with \<open>a < 0\<close> \<open>b < 0\<close> show ?thesis by simp
  next
    assume "a < 0" "\<not> b < 0"
    with eq have "CHR ''-'' # str_nat (nat (- a)) = str_nat (nat b)"
      by (simp add: str_int_def)
    then have "CHR ''-'' \<in> set (str_nat (nat b))"
      by (metis list.set_intros(1))
    then show ?thesis using str_nat_no_minus by blast
  next
    assume "\<not> a < 0" "b < 0"
    with eq have "str_nat (nat a) = CHR ''-'' # str_nat (nat (- b))"
      by (simp add: str_int_def)
    then have "CHR ''-'' \<in> set (str_nat (nat a))"
      by (metis list.set_intros(1))
    then show ?thesis using str_nat_no_minus by blast
  next
    assume "\<not> a < 0" "\<not> b < 0"
    with eq have "nat a = nat b" by (auto simp: str_int_def dest: str_nat_inj)
    with \<open>\<not> a < 0\<close> \<open>\<not> b < 0\<close> show ?thesis by simp
  qed
qed simp

lemma is_user_allowed_iff:
  "is_user_allowed am p \<longleftrightarrow> p \<in> user_id ` set (users (allowed_users am))"
  by (auto simp: is_user_allowed_def)

lemma str_int_examples: "str_int 42 = ''42''" "str_int (- 907) = ''-907''" "str_int 0 = ''0''"
  by code_simp+

section \<open>Properties of AuthManager\<close>

lemma allowed_users_save [simp]: "allowed_users (save_allowed_users ok am) = allowed_users am"
  by (simp add: save_allowed_users_def)

lemma allowed_users_file_save:
  "allowed_users_file (save_allowed_users ok am)
     = (if ok then allowed_users am else allowed_users_file am)"
  by (simp add: save_allowed_users_def)

lemma users_add_user_request [simp]:
  "users (allowed_users (add_user_request am p name now ok)) = users (allowed_users am)"
  by (simp add: add_user_request_def)

lemma users_deny_user [simp]:
  "users (allowed_users (snd (deny_user am p name ok))) = users (allowed_users am)"
  by (simp add: deny_user_def Let_def)

lemma users_revoke [simp]:
  "users (allowed_users (snd (revoke_user_access am p ok)))
     = filter (\<lambda>u. user_id u \<noteq> p) (users (allowed_users am))"
  by (simp add: revoke_user_access_def Let_def)

lemma users_approve:
  "users (allowed_users (snd (approve_user am p name now ok)))
     = (if is_user_allowed am p then users (allowed_users am)
        else users (allowed_users am) @ [\<lparr>user_id = p, user_name = name, approved_at = now\<rparr>])"
  by (simp add: approve_user_def Let_def is_user_allowed_def)

lemma pending_approve:
  "pending_requests (allowed_users (snd (approve_user am p name now ok)))
     = filter (\<lambda>req. request_user_id req \<noteq> p) (pending_requests (allowed_users am))"
  by (simp add: approve_user_def Let_def)

lemma fst_approve: "fst (approve_user am p name now ok) = (\<not> is_user_allowed am p)"
  by (simp add: approve_user_def Let_def is_user_allowed_def)

lemma reachable_distinct_users:
  "reachable am \<Longrightarrow> distinct (map user_id (users (allowed_users am)))"
proof (induction rule: reachable.induct)
  case init
  show ?case by (simp add: auth_init_def)
next
  case (request am uid name now disk_ok)
  then show ?case by simp
next
  case (approve am uid name now disk_ok)
  then show ?case by (auto simp: users_approve is_user_allowed_iff)
next
  case (deny am uid name disk_ok)
  then show ?case by simp
next
  case (revoke am uid disk_ok)
  then show ?case by (simp add: distinct_map_filter)
qed

lemma count_one:
  "distinct (map f xs) \<Longrightarrow> a \<in> f ` set xs \<Longrightarrow> length (filter (\<lambda>x. f x = a) xs) = 1"
proof (induction xs)
  case Nil
  then show ?case by simp
next
  case (Cons x xs)
  show ?case
  proof (cases "f x = a")
    case True
    with Cons.prems have "a \<notin> f ` set xs" by simp
    then have "filter (\<lambda>y. f y = a) xs = []"
      unfolding filter_empty_conv by blast
    with True show ?thesis by simp
  next
    case False
    with Cons show ?thesis by auto
  qed
qed


lemma pending_add_user_request:
  "pending_requests (allowed_users (add_user_request am p name now ok))
     = (if p \<in> request_user_id ` set (pending_requests (allowed_users am))
        then pending_requests (allowed_users am)
        else pending_requests (allowed_users am)
               @ [\<lparr>request_user_id = p, request_user_name = name, timestamp = now\<rparr>])"
  by (auto simp: add_user_request_def)

lemma pending_deny [simp]:
  "pending_requests (allowed_users (snd (deny_user am p name ok)))
     = filter (\<lambda>req. request_user_id req \<noteq> p) (pending_requests (allowed_users am))"
  by (simp add: deny_user_def Let_def)

lemma pending_revoke [simp]:
  "pending_requests (allowed_users (snd (revoke_user_access am p ok)))
     = pending_requests (allowed_users am)"
  by (simp add: revoke_user_access_def Let_def)

lemma exclusive_preserved:
  assumes "exclusive am"
  shows "exclusive (snd (approve_user am p name now ok))"
    and "exclusive (snd (deny_user am p name ok))"
    and "exclusive (snd (revoke_user_access am p ok))"
    and "\<not> is_user_allowed am p \<Longrightarrow> exclusive (add_user_request am p name now ok)"
  using assms
  by (auto simp: exclusive_def users_approve pending_approve pending_add_user_request
        is_user_allowed_iff split: if_splits)

lemma persisted_after:
  assumes "allowed_users_file am = allowed_users am"
  shows "allowed_users_file (add_user_request am p name now True)
           = allowed_users (add_user_request am p name now True)"
    and "allowed_users_file (snd (deny_user am p name True))
           = allowed_users (snd (deny_user am p name True))"
    and "allowed_users_file (snd (revoke_user_access am p True))
           = allowed_users (snd (revoke_user_access am p True))"
    and "\<not> (is_user_allowed am p \<and> p \<in> request_user_id ` set (pending_requests (allowed_users am)))
           \<Longrightarrow> allowed_users_file (snd (approve_user am p name now True))
           = allowed_users (snd (approve_user am p name now True))"
proof -
  have same: "filter P xs = xs" if "length (filter P xs) = length xs" for P and xs :: "'a list"
    using that by (metis filter_True length_filter_less nat_neq_iff filter_id_conv)
  show "allowed_users_file (add_user_request am p name now True)
           = allowed_users (add_user_request am p name now True)"
    using assms by (simp add: add_user_request_def save_allowed_users_def)
  show "allowed_users_file (snd (deny_user am p name True))
           = allowed_users (snd (deny_user am p name True))"
    using assms same [of "\<lambda>req. request_user_id req \<noteq> p" "pending_requests (allowed_users am)"]
    by (auto simp: deny_user_def Let_def save_allowed_users_def not_less
          dest!: le_antisym [OF length_filter_le])
  show "allowed_users_file (snd (revoke_user_access am p True))
           = allowed_users (snd (revoke_user_access am p True))"
    using assms same [of "\<lambda>u. user_id u \<noteq> p" "users (allowed_users am)"]
    by (auto simp: revoke_user_access_def Let_def save_allowed_users_def not_less
          dest!: le_antisym [OF length_filter_le])
  show "allowed_users_file (snd (approve_user am p name now True))
           = allowed_users (snd (approve_user am p name now True))"
    if "\<not> (is_user_allowed am p \<and> p \<in> request_user_id ` set (pending_requests (allowed_users am)))"
  proof (cases "is_user_allowed am p")
    case True
    with that have "p \<notin> request_user_id ` set (pending_requests (allowed_users am))" by simp
    then have "filter (\<lambda>req. request_user_id req \<noteq> p) (pending_requests (allowed_users am))
                 = pending_requests (allowed_users am)"
      by (auto simp: filter_id_conv)
    with True assms show ?thesis
      by (simp add: approve_user_def Let_def is_user_allowed_def)
  next
    case False
    then show ?thesis
      by (simp add: approve_user_def Let_def is_user_allowed_def save_allowed_users_def)
  qed
qed

text \<open>
  C8. In every state that the operations reach from the empty registry, \<open>approve_user\<close>
  for a principal \<open>p\<close> removes the pending requests of \<open>p\<close> and leaves the others; when \<open>p\<close>
  is not yet approved it appends one entry for \<open>p\<close> to the approved users and returns
  \<open>True\<close>; when \<open>p\<close> is already approved it returns \<open>False\<close> and leaves the approved users
  as they are; in both cases the approved users hold exactly one entry of \<open>p\<close> afterwards.
\<close>

theorem approve_user_effect:
  fixes am p name now disk_ok
  defines "res \<equiv> fst (approve_user am p name now disk_ok)"
  defines "am' \<equiv> snd (approve_user am p name now disk_ok)"
  assumes reach: "reachable am"
  shows "pending_requests (allowed_users am')
           = filter (\<lambda>req. request_user_id req \<noteq> p) (pending_requests (allowed_users am))
       \<and> p \<notin> request_user_id ` set (pending_requests (allowed_users am'))
       \<and> (\<not> is_user_allowed am p \<longrightarrow>
            res = True
          \<and> users (allowed_users am')
              = users (allowed_users am) @ [\<lparr>user_id = p, user_name = name, approved_at = now\<rparr>])
       \<and> (is_user_allowed am p \<longrightarrow> res = False \<and> users (allowed_users am') = users (allowed_users am))
       \<and> length (filter (\<lambda>u. user_id u = p) (users (allowed_users am'))) = 1"
proof -
  have d: "distinct (map user_id (users (allowed_users am')))"
    unfolding am'_def using reach by (intro reachable_distinct_users reachable.approve)
  have m: "p \<in> user_id ` set (users (allowed_users am'))"
    unfolding am'_def by (auto simp: users_approve is_user_allowed_iff)
  have one: "length (filter (\<lambda>u. user_id u = p) (users (allowed_users am'))) = 1"
    using d m by (rule count_one)
  show ?thesis
    unfolding res_def am'_def
    using one [unfolded am'_def]
    by (auto simp: pending_approve users_approve fst_approve)
qed

theorem approve_user_effect_witness:
  "reachable (add_user_request auth_init 7 ''u'' 100 True)
   \<and> \<not> is_user_allowed (add_user_request auth_init 7 ''u'' 100 True) 7
   \<and> fst (approve_user (add_user_request auth_init 7 ''u'' 100 True) 7 ''u'' 200 True) = True
   \<and> pending_requests (allowed_users
        (snd (approve_user (add_user_request auth_init 7 ''u'' 100 True) 7 ''u'' 200 True))) = []
   \<and> length (filter (\<lambda>u. user_id u = 7) (users (allowed_users
        (snd (approve_user (add_user_request auth_init 7 ''u'' 100 True) 7 ''u'' 200 True))))) = 1
   \<and> reachable (snd (approve_user (add_user_request auth_init 7 ''u'' 100 True) 7 ''u'' 200 True))
   \<and> is_user_allowed
        (snd (approve_user (add_user_request auth_init 7 ''u'' 100 True) 7 ''u'' 200 True)) 7
   \<and> fst (approve_user
        (snd (approve_user (add_user_request auth_init 7 ''u'' 100 True) 7 ''u'' 200 True))
        7 ''u'' 300 True) = False
   \<and> length (filter (\<lambda>u. user_id u = 7) (users (allowed_users
        (snd (approve_user
          (snd (approve_user (add_user_request auth_init 7 ''u'' 100 True) 7 ''u'' 200 True))
          7 ''u'' 300 True))))) = 1"
proof -
  let ?am0 = "add_user_request auth_init 7 ''u'' 100 True"
  let ?am1 = "snd (approve_user ?am0 7 ''u'' 200 True)"
  have r0: "reachable ?am0"
    by (intro reachable.request reachable.init)
  have r1: "reachable ?am1"
    using r0 by (rule reachable.approve)
  have n0: "\<not> is_user_allowed ?am0 7"
    by (simp add: is_user_allowed_def add_user_request_def auth_init_def)
  have a1: "is_user_allowed ?am1 7"
    by (simp add: is_user_allowed_iff users_approve)
  have p0: "pending_requests (allowed_users ?am0)
              = [\<lparr>request_user_id = 7, request_user_name = ''u'', timestamp = 100\<rparr>]"
    by (simp add: add_user_request_def auth_init_def)
  note t0 = approve_user_effect [OF r0, of 7 "''u''" 200 True]
  note t1 = approve_user_effect [OF r1, of 7 "''u''" 300 True]
  have f0: "fst (approve_user ?am0 7 ''u'' 200 True) = True"
    using t0 n0 by blast
  have e0: "pending_requests (allowed_users ?am1) = []"
    using t0 p0 by simp
  have c0: "length (filter (\<lambda>u. user_id u = 7) (users (allowed_users ?am1))) = 1"
    using t0 by blast
  have f1: "fst (approve_user ?am1 7 ''u'' 300 True) = False"
    using t1 a1 by blast
  have c1: "length (filter (\<lambda>u. user_id u = 7)
              (users (allowed_users (snd (approve_user ?am1 7 ''u'' 300 True))))) = 1"
    using t1 by blast
  show ?thesis
    using r0 n0 f0 e0 c0 r1 a1 f1 c1 by blast
qed

text \<open>
  C2, evaluated on the code. \<open>add_user_request\<close> looks for the principal among the pending
  requests only. On the empty registry, user 7 requests access and is approved, which removes
  the request; a second \<open>add_user_request\<close> for user 7 then leaves user 7 both approved and
  pending.
\<close>

theorem request_after_approval_breaks_exclusion:
  "is_user_allowed
     (add_user_request
        (snd (approve_user (add_user_request auth_init 7 ''u'' 100 True) 7 ''u'' 200 True))
        7 ''u'' 300 True) 7
   \<and> 7 \<in> request_user_id ` set (pending_requests (allowed_users
       (add_user_request
          (snd (approve_user (add_user_request auth_init 7 ''u'' 100 True) 7 ''u'' 200 True))
          7 ''u'' 300 True)))
   \<and> \<not> exclusive
       (add_user_request
          (snd (approve_user (add_user_request auth_init 7 ''u'' 100 True) 7 ''u'' 200 True))
          7 ''u'' 300 True)"
  by (simp add: approve_user_def add_user_request_def auth_init_def is_user_allowed_def Let_def
        exclusive_def)

text \<open>
  C3, evaluated on the code, every write succeeding. In the state above (file and memory
  equal, user 7 approved and pending) \<open>approve_user\<close> for user 7 returns \<open>False\<close>; it has
  removed the pending request from the registry in memory and has not written the file, which
  still holds the request.
\<close>

theorem approve_of_approved_user_is_not_persisted:
  "allowed_users_file
     (add_user_request
        (snd (approve_user (add_user_request auth_init 7 ''u'' 100 True) 7 ''u'' 200 True))
        7 ''u'' 300 True)
     = allowed_users
         (add_user_request
            (snd (approve_user (add_user_request auth_init 7 ''u'' 100 True) 7 ''u'' 200 True))
            7 ''u'' 300 True)
   \<and> fst (approve_user
       (add_user_request
          (snd (approve_user (add_user_request auth_init 7 ''u'' 100 True) 7 ''u'' 200 True))
          7 ''u'' 300 True)
       7 ''u'' 400 True) = False
   \<and> pending_requests (allowed_users (snd (approve_user
       (add_user_request
          (snd (approve_user (add_user_request auth_init 7 ''u'' 100 True) 7 ''u'' 200 True))
          7 ''u'' 300 True)
       7 ''u'' 400 True))) = []
   \<and> pending_requests (allowed_users_file (snd (approve_user
       (add_user_request
          (snd (approve_user (add_user_request auth_init 7 ''u'' 100 True) 7 ''u'' 200 True))
          7 ''u'' 300 True)
       7 ''u'' 400 True)))
       = [\<lparr>request_user_id = 7, request_user_name = ''u'', timestamp = 300\<rparr>]"
  by (simp add: approve_user_def add_user_request_def auth_init_def is_user_allowed_def Let_def
        save_allowed_users_def)

end
